theory Spec2Isabelle
  imports Main "HOL-Library.Word"
begin

unbundle bit_operations_syntax

section \<open>Discovery packets (src/Packet.cc)\<close>

subsection \<open>Machine types, memory and the error stream\<close>

text \<open>
  \<open>uint8_t\<close>, \<open>uint16_t\<close>, \<open>uint64_t\<close> and \<open>size_t\<close> are words of their width;
  \<open>int\<close> is a 32-bit word read in two's complement (\<open>sint\<close>). A conversion from
  \<open>size_t\<close> to \<open>int\<close> keeps the low 32 bits (\<open>ucast\<close>), a conversion from \<open>int\<close> to
  \<open>size_t\<close> extends the sign (\<open>scast\<close>), as on every LP64 platform.

  The packet codecs receive a bare \<open>char *\<close>: an address, and no capacity. Memory is a
  map from addresses to bytes; an address is a natural number (pointer arithmetic
  inside an object never wraps), and the null pointer is address 0.
\<close>

type_synonym byte = "8 word"
type_synonym size_t = "64 word"
type_synonym c_int = "32 word"
type_synonym addr = nat
type_synonym memory = "addr \<Rightarrow> byte"

definition NULL :: addr where
  "NULL = 0"

text \<open>\<open>memcpy(dst, src, n)\<close> with the destination in the buffer: the first \<open>n\<close> bytes
  of the source, written one after the other.\<close>

fun write_bytes :: "memory \<Rightarrow> addr \<Rightarrow> byte list \<Rightarrow> memory" where
  "write_bytes m p [] = m"
| "write_bytes m p (b # bs) = write_bytes (m(p := b)) (Suc p) bs"

definition memcpy_to :: "memory \<Rightarrow> addr \<Rightarrow> byte list \<Rightarrow> nat \<Rightarrow> memory" where
  "memcpy_to m dst src n = write_bytes m dst (take n src)"

text \<open>\<open>memcpy(&x, src, n)\<close> with the source in the buffer: the \<open>n\<close> bytes at \<open>src\<close>.\<close>

fun memcpy_from :: "memory \<Rightarrow> addr \<Rightarrow> nat \<Rightarrow> byte list" where
  "memcpy_from m p 0 = []"
| "memcpy_from m p (Suc n) = m p # memcpy_from m (Suc p) n"

text \<open>The object representation of an unsigned integer on a little-endian host (the
  byte order the wire layout assumes): least significant byte first.\<close>

fun le_bytes :: "nat \<Rightarrow> 'a::len word \<Rightarrow> byte list" where
  "le_bytes 0 w = []"
| "le_bytes (Suc n) w = ucast w # le_bytes n (drop_bit 8 w)"

fun le_word :: "byte list \<Rightarrow> 'a::len word" where
  "le_word [] = 0"
| "le_word (b # bs) = ucast b OR push_bit 8 (le_word bs)"

text \<open>\<open>std::string\<close>: a sequence of \<open>char\<close>, each one byte. \<open>size()\<close> is a \<open>size_t\<close>.\<close>

definition byte_of_char :: "char \<Rightarrow> byte" where
  "byte_of_char c = of_nat (of_char c)"

definition char_of_byte :: "byte \<Rightarrow> char" where
  "char_of_byte b = char_of (unat b)"

definition string_data :: "string \<Rightarrow> byte list" where
  "string_data s = map byte_of_char s"

definition string_size :: "string \<Rightarrow> size_t" where
  "string_size s = of_nat (length s)"

text \<open>\<open>std::string(first, last)\<close> on a buffer: the \<open>n\<close> bytes from \<open>first\<close>.\<close>

definition string_from :: "memory \<Rightarrow> addr \<Rightarrow> nat \<Rightarrow> string" where
  "string_from m p n = map char_of_byte (memcpy_from m p n)"

subsection \<open>Header\<close>

record Header =
  version :: "16 word"
  pUuid :: string
  type :: byte
  flags :: "16 word"

text \<open>What the codecs send to \<open>std::cerr\<close>: text, \<open>std::endl\<close>, and a header streamed
  with its \<open>operator<<\<close>.\<close>

datatype cerr_item = Text string | Endl | Streamed Header

text \<open>Modelled from the spec: the message type constants, declared in Packet.hh, which
  is not among the sources. The spec fixes \<open>Uninitialized = 0\<close> as the sentinel for
  "unset" and \<open>Advertise = 1\<close>.\<close>

definition Uninitialized :: byte where
  "Uninitialized = 0"

definition AdvType :: byte where
  "AdvType = 1"

definition HeaderLength :: "Header \<Rightarrow> c_int" where
  "HeaderLength h = ucast ((2 :: size_t) + 8 + string_size (pUuid h) + 1 + 2)"

definition Header_Pack ::
  "Header \<Rightarrow> addr \<Rightarrow> memory \<Rightarrow> cerr_item list \<Rightarrow> size_t \<times> memory \<times> cerr_item list" where
  "Header_Pack h buffer m cerr =
    (if version h = 0 \<or> pUuid h = [] \<or> type h = Uninitialized then
       (0, m, cerr @ [Text ''Header::Pack() error: You're trying to pack an incomplete header:'',
                      Endl, Streamed h])
     else if buffer = NULL then
       (0, m, cerr @ [Text ''Header::Pack() error: NULL output buffer'', Endl])
     else
       let m1 = memcpy_to m buffer (le_bytes 2 (version h)) 2;
           buffer1 = buffer + 2;
           pUuidLength = string_size (pUuid h);
           m2 = memcpy_to m1 buffer1 (le_bytes 8 pUuidLength) 8;
           buffer2 = buffer1 + 8;
           m3 = memcpy_to m2 buffer2 (string_data (pUuid h)) (unat pUuidLength);
           buffer3 = buffer2 + unat pUuidLength;
           m4 = memcpy_to m3 buffer3 [type h] 1;
           buffer4 = buffer3 + 1;
           m5 = memcpy_to m4 buffer4 (le_bytes 2 (flags h)) 2
       in (scast (HeaderLength h), m5, cerr))"

definition Header_Unpack ::
  "Header \<Rightarrow> addr \<Rightarrow> memory \<Rightarrow> cerr_item list \<Rightarrow> size_t \<times> Header \<times> cerr_item list" where
  "Header_Unpack h buffer m cerr =
    (if buffer = NULL then
       (0, h, cerr @ [Text ''Header::Unpack() error: NULL input buffer'', Endl])
     else
       let h1 = h\<lparr>version := le_word (memcpy_from m buffer 2)\<rparr>;
           buffer1 = buffer + 2;
           pUuidLength = (le_word (memcpy_from m buffer1 8) :: 64 word);
           buffer2 = buffer1 + 8;
           h2 = h1\<lparr>pUuid := string_from m buffer2 (unat pUuidLength)\<rparr>;
           buffer3 = buffer2 + unat pUuidLength;
           h3 = h2\<lparr>type := le_word (memcpy_from m buffer3 1)\<rparr>;
           buffer4 = buffer3 + 1;
           h4 = h3\<lparr>flags := le_word (memcpy_from m buffer4 2)\<rparr>
       in (scast (HeaderLength h4), h4, cerr))"

text \<open>The spec's data model: a header is valid for packing iff its version is not 0,
  its process UUID is not empty and its type is not \<open>Uninitialized\<close>.\<close>

definition valid_for_packing :: "Header \<Rightarrow> bool" where
  "valid_for_packing h = (version h \<noteq> 0 \<and> pUuid h \<noteq> [] \<and> type h \<noteq> Uninitialized)"

text \<open>The spec's wire layout: version (2 bytes), UUID length (8 bytes), the UUID's
  bytes, type (1 byte), flags (2 bytes).\<close>

definition Header_wire :: "Header \<Rightarrow> byte list" where
  "Header_wire h =
     le_bytes 2 (version h) @ le_bytes 8 (string_size (pUuid h)) @ string_data (pUuid h) @
     [type h] @ le_bytes 2 (flags h)"

subsection \<open>SubscriptionMsg\<close>

record SubscriptionMsg =
  sub_header :: Header
  sub_topic :: string

definition SubscriptionMsg_MsgLength :: "SubscriptionMsg \<Rightarrow> size_t" where
  "SubscriptionMsg_MsgLength s =
     scast (HeaderLength (sub_header s)) + 8 + string_size (sub_topic s)"

definition SubscriptionMsg_Pack ::
  "SubscriptionMsg \<Rightarrow> addr \<Rightarrow> memory \<Rightarrow> cerr_item list \<Rightarrow> size_t \<times> memory \<times> cerr_item list" where
  "SubscriptionMsg_Pack s buffer m cerr =
    (case Header_Pack (sub_header s) buffer m cerr of
       (headerLen, m1, cerr1) \<Rightarrow>
         if headerLen = 0 then (0, m1, cerr1)
         else if sub_topic s = [] then
           (0, m1, cerr1 @ [Text ''SubscriptionMsg::Pack() error: You're trying to pack a message with an empty topic'',
                            Endl])
         else
           let buffer1 = buffer + unat headerLen;
               topicLength = string_size (sub_topic s);
               m2 = memcpy_to m1 buffer1 (le_bytes 8 topicLength) 8;
               buffer2 = buffer1 + 8;
               m3 = memcpy_to m2 buffer2 (string_data (sub_topic s)) (unat topicLength)
           in (SubscriptionMsg_MsgLength s, m3, cerr1))"

definition SubscriptionMsg_Unpack ::
  "SubscriptionMsg \<Rightarrow> addr \<Rightarrow> memory \<Rightarrow> cerr_item list \<Rightarrow>
     size_t \<times> SubscriptionMsg \<times> cerr_item list" where
  "SubscriptionMsg_Unpack s buffer m cerr =
    (if buffer = NULL then
       (0, s, cerr @ [Text ''SubscriptionMsg::UnpackBody() error: NULL input buffer'', Endl])
     else
       let topicLength = (le_word (memcpy_from m buffer 8) :: 64 word);
           buffer1 = buffer + 8;
           s1 = s\<lparr>sub_topic := string_from m buffer1 (unat topicLength)\<rparr>
       in (8 + topicLength, s1, cerr))"

subsection \<open>AdvertiseMessage\<close>

text \<open>The publisher is an externally defined record with a codec of its own
  (\<open>Pack\<close>, \<open>Unpack\<close>, \<open>MsgLength\<close>); Publisher.cc is not among the sources, so the
  codec is a parameter of the advertise codec.\<close>

record 'p Publisher_codec =
  Publisher_Pack :: "'p \<Rightarrow> addr \<Rightarrow> memory \<Rightarrow> cerr_item list \<Rightarrow> size_t \<times> memory \<times> cerr_item list"
  Publisher_Unpack :: "'p \<Rightarrow> addr \<Rightarrow> memory \<Rightarrow> cerr_item list \<Rightarrow> size_t \<times> 'p \<times> cerr_item list"
  Publisher_MsgLength :: "'p \<Rightarrow> size_t"

text \<open>Modelled from the spec: \<open>Publisher::Pack\<close> and \<open>Publisher::Unpack\<close> on a null buffer
  (Publisher.cc is missing). The spec's rejection law: any pack or unpack with a null
  buffer returns 0.\<close>

definition Publisher_rejects_null :: "'p Publisher_codec \<Rightarrow> bool" where
  "Publisher_rejects_null c =
     (\<forall>p m cerr. fst (Publisher_Pack c p NULL m cerr) = 0 \<and>
                 fst (Publisher_Unpack c p NULL m cerr) = 0)"

record 'p AdvertiseMessage =
  adv_header :: Header
  adv_publisher :: 'p

definition AdvertiseMessage_MsgLength :: "'p Publisher_codec \<Rightarrow> 'p AdvertiseMessage \<Rightarrow> size_t" where
  "AdvertiseMessage_MsgLength c a =
     scast (HeaderLength (adv_header a)) + Publisher_MsgLength c (adv_publisher a)"

definition AdvertiseMessage_Pack ::
  "'p Publisher_codec \<Rightarrow> 'p AdvertiseMessage \<Rightarrow> addr \<Rightarrow> memory \<Rightarrow> cerr_item list \<Rightarrow>
     size_t \<times> memory \<times> cerr_item list" where
  "AdvertiseMessage_Pack c a buffer m cerr =
    (case Header_Pack (adv_header a) buffer m cerr of
       (len, m1, cerr1) \<Rightarrow>
         if len = 0 then (0, m1, cerr1)
         else
           (case Publisher_Pack c (adv_publisher a) (buffer + unat len) m1 cerr1 of
              (plen, m2, cerr2) \<Rightarrow>
                if plen = 0 then (0, m2, cerr2)
                else (AdvertiseMessage_MsgLength c a, m2, cerr2)))"

definition AdvertiseMessage_Unpack ::
  "'p Publisher_codec \<Rightarrow> 'p AdvertiseMessage \<Rightarrow> addr \<Rightarrow> memory \<Rightarrow> cerr_item list \<Rightarrow>
     size_t \<times> 'p AdvertiseMessage \<times> cerr_item list" where
  "AdvertiseMessage_Unpack c a buffer m cerr =
    (case Publisher_Unpack c (adv_publisher a) buffer m cerr of
       (n, p1, cerr1) \<Rightarrow>
         let a1 = a\<lparr>adv_publisher := p1\<rparr>
         in if n = 0 then (0, a1, cerr1)
            else (Publisher_MsgLength c (adv_publisher a1), a1, cerr1))"

section \<open>The recorder (log/src/Recorder.cc)\<close>

subsection \<open>Collaborators and state\<close>

text \<open>
  \<open>std::regex\<close> is used through \<open>std::regex_match\<close> alone, so a pattern is the set of
  strings it matches in full. The node, the log and the topic utilities are external:
  the node is a state of an arbitrary type with its three operations, \<open>Log::Open\<close> is
  its result for a path, \<open>DecomposeFullyQualifiedTopic\<close> is the pair of strings it
  leaves in its two output parameters (its boolean result is discarded by the
  caller), and the \<open>int64_t\<close> behind each \<open>RecorderError\<close> (Recorder.hh) is a table.
  The console macros (\<open>LDBG\<close>, \<open>LWRN\<close>, \<open>LERR\<close>, \<open>LMSG\<close>) are left out. Each operation is
  modelled as one run taken alone. \<open>Start\<close> and \<open>Stop\<close> hold \<open>logFileMutex\<close> for their
  whole body; \<open>topicMutex\<close> is declared and never locked, so runs of \<open>OnAdvertisement\<close>
  and of \<open>AddTopic\<close> can overlap, and the statements about them are about one run, not
  about a sequence of runs.
\<close>

datatype RecorderError = NO_ERROR | FAILED_TO_OPEN | FAILED_TO_SUBSCRIBE | ALREADY_RECORDING

type_synonym regex = "string \<Rightarrow> bool"

definition regex_match :: "string \<Rightarrow> regex \<Rightarrow> bool" where
  "regex_match s pattern = pattern s"

datatype Log = NewLog | OpenLog string

record 'n collaborators =
  Node_Partition :: "'n \<Rightarrow> string"
  Node_TopicList :: "'n \<Rightarrow> string list"
  Node_SubscribeRaw :: "'n \<Rightarrow> string \<Rightarrow> bool \<times> 'n"
  Log_Open :: "string \<Rightarrow> bool"
  DecomposeFullyQualifiedTopic :: "string \<Rightarrow> string \<times> string"
  RecorderError_value :: "RecorderError \<Rightarrow> 64 word"

text \<open>The recorder's state. The last two fields are histories kept for the statements:
  every \<open>SubscribeRaw\<close> call issued with its result, and every path given to
  \<open>Log::Open\<close>.\<close>

record 'n RecorderPrivate =
  logFile :: "Log option"
  patterns :: "regex list"
  alreadySubscribed :: "string set"
  node :: 'n
  subscribeRawCalls :: "(string \<times> bool) list"
  openCalls :: "string list"

subsection \<open>C strings\<close>

definition NUL :: char where
  "NUL = CHR 0x00"

text \<open>\<open>s[i]\<close>: for \<open>i = s.size()\<close> it is the terminator.\<close>

definition string_at :: "string \<Rightarrow> nat \<Rightarrow> char" where
  "string_at s i = (if i < length s then s ! i else NUL)"

text \<open>The C string that starts at \<open>s.c_str() + k\<close>: the characters up to the first
  NUL. With \<open>k\<close> beyond the terminator the pointer is outside the string's buffer and
  reading it is undefined: \<open>None\<close>.\<close>

definition c_string_at :: "string \<Rightarrow> nat \<Rightarrow> string option" where
  "c_string_at s k =
     (if k \<le> length s then Some (takeWhile (\<lambda>c. c \<noteq> NUL) (drop k s)) else None)"

fun strcmp :: "string \<Rightarrow> string \<Rightarrow> int" where
  "strcmp [] [] = 0"
| "strcmp [] (y # ys) = - 1"
| "strcmp (x # xs) [] = 1"
| "strcmp (x # xs) (y # ys) =
     (if x = y then strcmp xs ys
      else if (of_char x :: nat) < of_char y then - 1 else 1)"

subsection \<open>Operations\<close>

definition AddTopic ::
  "'n collaborators \<Rightarrow> string \<Rightarrow> 'n RecorderPrivate \<Rightarrow> RecorderError \<times> 'n RecorderPrivate" where
  "AddTopic c topic st =
    (case Node_SubscribeRaw c (node st) topic of
       (ok, node1) \<Rightarrow>
         let st1 = st\<lparr>node := node1,
                       subscribeRawCalls := subscribeRawCalls st @ [(topic, ok)]\<rparr>
         in if \<not> ok then (FAILED_TO_SUBSCRIBE, st1)
            else (NO_ERROR, st1\<lparr>alreadySubscribed := insert topic (alreadySubscribed st1)\<rparr>))"

text \<open>The loop of \<open>AddTopic(const std::regex &)\<close> over the topic list: \<open>Inl\<close> is the
  value of the \<open>return\<close> inside the loop, \<open>Inr\<close> is \<open>numSubscriptions\<close> (an \<open>int\<close>) when
  the loop ends.\<close>

fun AddTopic_loop ::
  "'n collaborators \<Rightarrow> regex \<Rightarrow> string list \<Rightarrow> c_int \<Rightarrow> 'n RecorderPrivate \<Rightarrow>
     (64 word + c_int) \<times> 'n RecorderPrivate" where
  "AddTopic_loop c pattern [] numSubscriptions st = (Inr numSubscriptions, st)"
| "AddTopic_loop c pattern (topic # allTopics) numSubscriptions st =
    (if regex_match topic pattern then
       (case AddTopic c topic st of
          (err, st1) \<Rightarrow>
            if err = FAILED_TO_SUBSCRIBE then
              (Inl (RecorderError_value c FAILED_TO_SUBSCRIBE), st1)
            else AddTopic_loop c pattern allTopics (numSubscriptions + 1) st1)
     else AddTopic_loop c pattern allTopics numSubscriptions st)"

definition AddTopic_regex ::
  "'n collaborators \<Rightarrow> regex \<Rightarrow> 'n RecorderPrivate \<Rightarrow> 64 word \<times> 'n RecorderPrivate" where
  "AddTopic_regex c pattern st =
    (case AddTopic_loop c pattern (Node_TopicList c (node st)) 0 st of
       (Inl r, st1) \<Rightarrow> (r, st1)
     | (Inr numSubscriptions, st1) \<Rightarrow>
         (scast numSubscriptions, st1\<lparr>patterns := patterns st1 @ [pattern]\<rparr>))"

fun OnAdvertisement_loop ::
  "'n collaborators \<Rightarrow> string \<Rightarrow> regex list \<Rightarrow> 'n RecorderPrivate \<Rightarrow> 'n RecorderPrivate" where
  "OnAdvertisement_loop c topic [] st = st"
| "OnAdvertisement_loop c topic (pattern # rest) st =
     OnAdvertisement_loop c topic rest
       (if regex_match topic pattern then snd (AddTopic c topic st) else st)"

text \<open>\<open>OnAdvertisement\<close>, given the publisher's \<open>Topic()\<close>. \<open>None\<close> is the undefined
  read when \<open>startCmp\<close> is beyond the advertised partition's terminator.\<close>

definition OnAdvertisement ::
  "'n collaborators \<Rightarrow> string \<Rightarrow> 'n RecorderPrivate \<Rightarrow> 'n RecorderPrivate option" where
  "OnAdvertisement c publisherTopic st =
    (case DecomposeFullyQualifiedTopic c publisherTopic of
       (partition', topic) \<Rightarrow>
         let nodePartition = Node_Partition c (node st);
             startCmp = (if string_at nodePartition 0 = CHR ''/'' then 0 else 1)
         in (case (c_string_at nodePartition 0, c_string_at partition' startCmp) of
               (Some ours, Some theirs) \<Rightarrow>
                 if strcmp ours theirs \<noteq> 0 then Some st
                 else if topic \<in> alreadySubscribed st then Some st
                 else Some (OnAdvertisement_loop c topic (patterns st) st)
             | _ \<Rightarrow> None))"

definition Start ::
  "'n collaborators \<Rightarrow> string \<Rightarrow> 'n RecorderPrivate \<Rightarrow> RecorderError \<times> 'n RecorderPrivate" where
  "Start c file st =
    (if logFile st \<noteq> None then (ALREADY_RECORDING, st)
     else
       let st1 = st\<lparr>logFile := Some NewLog, openCalls := openCalls st @ [file]\<rparr>
       in if \<not> Log_Open c file then (FAILED_TO_OPEN, st1\<lparr>logFile := None\<rparr>)
          else (NO_ERROR, st1\<lparr>logFile := Some (OpenLog file)\<rparr>))"

definition Stop :: "'n RecorderPrivate \<Rightarrow> 'n RecorderPrivate" where
  "Stop st = st\<lparr>logFile := None\<rparr>"


section \<open>Concrete inputs\<close>

text \<open>The header of the spec's wire layout scenario.\<close>

definition abc_header :: Header where
  "abc_header = \<lparr>version = 1, pUuid = ''abc'', type = AdvType, flags = 0\<rparr>"

text \<open>A publisher that is just a topic string, with a length-prefixed codec that checks
  for the null buffer.\<close>

definition topic_codec :: "string Publisher_codec" where
  "topic_codec =
     \<lparr>Publisher_Pack = (\<lambda>p buffer m cerr.
          if buffer = NULL then (0, m, cerr)
          else (8 + string_size p,
                memcpy_to (memcpy_to m buffer (le_bytes 8 (string_size p)) 8)
                  (buffer + 8) (string_data p) (length p), cerr)),
      Publisher_Unpack = (\<lambda>p buffer m cerr.
          if buffer = NULL then (0, p, cerr)
          else (8 + le_word (memcpy_from m buffer 8),
                string_from m (buffer + 8) (unat (le_word (memcpy_from m buffer 8) :: 64 word)),
                cerr)),
      Publisher_MsgLength = (\<lambda>p. 8 + string_size p)\<rparr>"

text \<open>Modelled from the spec: \<open>TopicUtils::DecomposeFullyQualifiedTopic\<close> (not among the
  sources), which splits \<open>"@/<partition>@<topic>"\<close> into the partition and the topic.
  It is the decomposition of the concrete node below; the operations take any
  decomposition.\<close>

definition split_topic :: "string \<Rightarrow> string \<times> string" where
  "split_topic fq =
     (takeWhile (\<lambda>ch. ch \<noteq> CHR ''@'') (drop 1 fq),
      drop 1 (dropWhile (\<lambda>ch. ch \<noteq> CHR ''@'') (drop 1 fq)))"

text \<open>A node with a given partition and three topics, whose \<open>SubscribeRaw\<close> succeeds on
  the topics the second argument accepts; a log that opens every path but the empty
  one. The error codes are those of an \<open>int64_t\<close> enumeration counting down from 0.\<close>

definition test_node :: "string \<Rightarrow> (string \<Rightarrow> bool) \<Rightarrow> unit collaborators" where
  "test_node part accepts =
     \<lparr>Node_Partition = (\<lambda>_. part),
      Node_TopicList = (\<lambda>_. [''cmd'', ''odom'', ''scan'']),
      Node_SubscribeRaw = (\<lambda>n t. (accepts t, n)),
      Log_Open = (\<lambda>file. file \<noteq> []),
      DecomposeFullyQualifiedTopic = split_topic,
      RecorderError_value = (\<lambda>e. case e of NO_ERROR \<Rightarrow> 0 | FAILED_TO_OPEN \<Rightarrow> - 1
                                   | FAILED_TO_SUBSCRIBE \<Rightarrow> - 2 | ALREADY_RECORDING \<Rightarrow> - 3)\<rparr>"

text \<open>The recorder after construction.\<close>

definition new_recorder :: "unit RecorderPrivate" where
  "new_recorder =
     \<lparr>logFile = None, patterns = [], alreadySubscribed = {}, node = (),
      subscribeRawCalls = [], openCalls = []\<rparr>"

text \<open>A node like the one above with partition \<open>robot\<close>, but with \<open>2^31\<close> topics in its
  list: the \<open>i\<close>-th is named by the four bytes of \<open>i\<close>.\<close>

definition crowded_node :: "unit collaborators" where
  "crowded_node =
     (test_node ''robot'' (\<lambda>_. True))
       \<lparr>Node_TopicList :=
          (\<lambda>_. map (\<lambda>i. map char_of_byte (le_bytes 4 (of_nat i :: 32 word))) [0..<2147483648])\<rparr>"

section \<open>Properties of the packet codecs\<close>

subsection \<open>Memory and encodings\<close>

lemma write_bytes_apply:
  "write_bytes m p bs a = (if p \<le> a \<and> a < p + length bs then bs ! (a - p) else m a)"
proof (induction bs arbitrary: m p)
  case Nil
  then show ?case by auto
next
  case (Cons b bs)
  have IH: "write_bytes (m(p := b)) (Suc p) bs a =
          (if Suc p \<le> a \<and> a < Suc p + length bs then bs ! (a - Suc p) else (m(p := b)) a)"
    by (rule Cons.IH)
  consider "a < p" | "a = p" | "p < a"
    by linarith
  then show ?case
  proof cases
    case 1
    then show ?thesis using IH by simp
  next
    case 2
    then show ?thesis using IH by simp
  next
    case 3
    then obtain d where d: "a - p = Suc d" "a - Suc p = d"
      by (metis Suc_diff_Suc diff_Suc_eq_diff_pred)
    show ?thesis using IH 3 d by simp
  qed
qed

lemma write_bytes_append:
  "write_bytes m p (xs @ ys) = write_bytes (write_bytes m p xs) (p + length xs) ys"
  by (induction xs arbitrary: m p) simp_all

lemma memcpy_from_map: "memcpy_from m p n = map m [p..<p + n]"
proof (induction n arbitrary: p)
  case 0
  then show ?case by simp
next
  case (Suc n)
  have "[p..<p + Suc n] = p # [Suc p..<Suc p + n]"
    by (simp add: upt_conv_Cons)
  then show ?case by (simp add: Suc.IH)
qed

lemma length_memcpy_from [simp]: "length (memcpy_from m p n) = n"
  by (simp add: memcpy_from_map)

lemma read_written:
  assumes "k + n \<le> length bs"
  shows "memcpy_from (write_bytes m p bs) (p + k) n = take n (drop k bs)"
proof (rule nth_equalityI)
  show "length (memcpy_from (write_bytes m p bs) (p + k) n) = length (take n (drop k bs))"
    using assms by simp
next
  fix i assume "i < length (memcpy_from (write_bytes m p bs) (p + k) n)"
  then have i: "i < n" by simp
  then show "memcpy_from (write_bytes m p bs) (p + k) n ! i = take n (drop k bs) ! i"
    using assms by (simp add: memcpy_from_map write_bytes_apply)
qed

lemma length_le_bytes [simp]: "length (le_bytes n w) = n"
  by (induction n arbitrary: w) simp_all

lemma le_word_le_bytes:
  "(le_word (le_bytes n w) :: 'a::len word) = take_bit (8 * n) w"
proof (induction n arbitrary: w)
  case 0
  then show ?case by simp
next
  case (Suc n)
  show ?case
    apply (simp add: Suc.IH)
    apply (rule bit_word_eqI)
    apply (auto simp: bit_simps)
    done
qed

lemma le_word_u16 [simp]: "le_word (le_bytes 2 (w :: 16 word)) = w"
  unfolding le_word_le_bytes by (rule take_bit_word_eq_self) simp

lemma le_word_u64 [simp]: "le_word (le_bytes 8 (w :: 64 word)) = w"
  unfolding le_word_le_bytes by (rule take_bit_word_eq_self) simp

lemma le_word_u8 [simp]: "le_word [b] = (b :: byte)"
  by simp

lemma char_of_byte_of_char [simp]: "char_of_byte (byte_of_char c) = c"
proof -
  have "(of_char c :: nat) < 256" by (rule String.nat_of_char_less_256)
  then show ?thesis by (simp add: char_of_byte_def byte_of_char_def unat_of_nat)
qed

lemma string_of_data [simp]: "map char_of_byte (string_data s) = s"
  by (simp add: string_data_def comp_def)

lemma length_string_data [simp]: "length (string_data s) = length s"
  by (simp add: string_data_def)

lemma unat_string_size: "length s < 2 ^ 64 \<Longrightarrow> unat (string_size s) = length s"
  by (simp add: string_size_def unat_of_nat)

lemma length_Header_wire [simp]: "length (Header_wire h) = 13 + length (pUuid h)"
  by (simp add: Header_wire_def)

lemma int_of_size_t_small:
  fixes w :: "64 word"
  assumes "w < 2 ^ 31"
  shows "(scast (ucast w :: 32 word) :: 64 word) = w"
proof (rule bit_word_eqI)
  fix n assume n: "n < LENGTH(64)"
  have "w AND mask 31 = w"
    using assms by (rule less_mask_eq)
  then have hi: "\<not> bit w k" if "31 \<le> k" for k
    using that by (metis bit_and_iff bit_mask_iff not_le)
  show "bit (scast (ucast w :: 32 word) :: 64 word) n = bit w n"
    using hi[of n] hi[of 31] n
    by (auto simp add: bit_simps min_def)
qed

lemma HeaderLength_small:
  assumes "13 + length (pUuid h) < 2 ^ 31"
  shows "(scast (HeaderLength h) :: size_t) = of_nat (13 + length (pUuid h))"
proof -
  let ?w = "(of_nat (13 + length (pUuid h)) :: size_t)"
  have eq: "(2 :: size_t) + 8 + string_size (pUuid h) + 1 + 2 = ?w"
    by (simp add: string_size_def)
  have "unat ?w = (13 + length (pUuid h)) mod 2 ^ 64"
    using unat_of_nat [where 'a = 64, of "13 + length (pUuid h)"] by simp
  then have "unat ?w = 13 + length (pUuid h)"
    using assms by simp
  then have "?w < 2 ^ 31"
    using assms by (simp add: word_less_nat_alt)
  then show ?thesis
    unfolding HeaderLength_def eq by (rule int_of_size_t_small)
qed

lemma Header_Pack_valid:
  assumes "valid_for_packing h" and "buffer \<noteq> NULL" and "length (pUuid h) < 2 ^ 64"
  shows "Header_Pack h buffer m cerr =
           (scast (HeaderLength h), write_bytes m buffer (Header_wire h), cerr)"
  using assms
  by (simp add: Header_Pack_def valid_for_packing_def Let_def memcpy_to_def Header_wire_def
      write_bytes_append unat_string_size add.assoc)

lemma read_written_at:
  assumes "a = p + k" and "k + n \<le> length bs" and "xs = take n (drop k bs)"
  shows "memcpy_from (write_bytes m p bs) a n = xs"
  using assms read_written [of k n bs m p] by simp

lemma Header_Unpack_wire:
  assumes "buffer \<noteq> NULL" and "length (pUuid h) < 2 ^ 64"
  shows "Header_Unpack (h0 :: Header) buffer (write_bytes m buffer (Header_wire h)) cerr =
           (scast (HeaderLength h), h, cerr)"
proof -
  let ?m = "write_bytes m buffer (Header_wire h)"
  let ?n = "length (pUuid h)"
  have r1: "memcpy_from ?m buffer 2 = le_bytes 2 (version h)"
    by (rule read_written_at [where k = 0]) (simp_all add: Header_wire_def)
  have r2: "memcpy_from ?m (buffer + 2) 8 = le_bytes 8 (string_size (pUuid h))"
    by (rule read_written_at [where k = 2]) (simp_all add: Header_wire_def)
  have r3: "memcpy_from ?m (buffer + 2 + 8) ?n = string_data (pUuid h)"
    by (rule read_written_at [where k = 10]) (simp_all add: Header_wire_def)
  have r4: "memcpy_from ?m (buffer + 2 + 8 + ?n) 1 = [type h]"
    by (rule read_written_at [where k = "10 + ?n"]) (simp_all add: Header_wire_def)
  have r5: "memcpy_from ?m (buffer + 2 + 8 + ?n + 1) 2 = le_bytes 2 (flags h)"
    by (rule read_written_at [where k = "11 + ?n"]) (simp_all add: Header_wire_def)
  have len: "unat (string_size (pUuid h)) = ?n"
    using assms(2) by (rule unat_string_size)
  have "Header_Unpack h0 buffer ?m cerr =
          (let h4 = h0\<lparr>version := version h, pUuid := pUuid h, type := type h, flags := flags h\<rparr>
           in (scast (HeaderLength h4), h4, cerr))"
    unfolding Header_Unpack_def Let_def
    by (simp only: r1 r2 le_word_u64 le_word_u16 len r3 r4 r5 string_from_def string_of_data
        le_word_u8 assms(1) if_False)
  moreover have "h0\<lparr>version := version h, pUuid := pUuid h, type := type h, flags := flags h\<rparr> = h"
    by (cases h0, cases h) simp
  ultimately show ?thesis
    by (simp add: Let_def)
qed

lemma write_bytes_outside:
  "a < p \<or> p + length bs \<le> a \<Longrightarrow> write_bytes m p bs a = m a"
  by (auto simp: write_bytes_apply)

lemma read_written_all: "memcpy_from (write_bytes m p bs) p (length bs) = bs"
  by (rule read_written_at [where k = 0]) simp_all

lemma memcpy_from_numeral:
  "memcpy_from m p (numeral k) = m p # memcpy_from m (Suc p) (pred_numeral k)"
  by (simp add: numeral_eq_Suc)

lemma length_string_from [simp]: "length (string_from m p n) = n"
  by (simp add: string_from_def)

subsection \<open>What Pack and Unpack return\<close>

lemma Header_Pack_result:
  assumes "valid_for_packing h" and "buffer \<noteq> NULL"
  shows "fst (Header_Pack h buffer m cerr) = scast (HeaderLength h)"
  using assms by (simp add: Header_Pack_def valid_for_packing_def Let_def)

lemma Header_Pack_NULL: "fst (Header_Pack h NULL m cerr) = 0"
  by (simp add: Header_Pack_def)

lemma Header_Unpack_result:
  assumes "buffer \<noteq> NULL"
  shows "fst (Header_Unpack h buffer m cerr) =
           scast (ucast (13 + (le_word (memcpy_from m (buffer + 2) 8) :: 64 word)) :: c_int)"
  using assms
  by (simp add: Header_Unpack_def Let_def HeaderLength_def string_size_def)

text \<open>Unpack validates nothing: from a buffer of zero bytes it builds the header that
  Pack rejects, and reports 13 bytes read.\<close>

lemma Header_Unpack_no_validation:
  "Header_Unpack h 1 (\<lambda>_. 0) cerr =
     (13, \<lparr>version = 0, pUuid = [], type = Uninitialized, flags = 0\<rparr>, cerr)"
  by (cases h) (simp add: Header_Unpack_def NULL_def Let_def string_from_def Uninitialized_def
      HeaderLength_def string_size_def memcpy_from_numeral)

text \<open>Unpack after Pack gives the header back, for every valid header; both return the
  header length as long as it fits an \<open>int\<close>.\<close>

lemma Header_roundtrip:
  assumes "valid_for_packing h" and "buffer \<noteq> NULL" and "length (pUuid h) < 2 ^ 64"
  shows "Header_Unpack h0 buffer (fst (snd (Header_Pack h buffer m cerr))) cerr' =
           (scast (HeaderLength h), h, cerr')"
proof -
  have "Header_Pack h buffer m cerr =
          (scast (HeaderLength h), write_bytes m buffer (Header_wire h), cerr)"
    using assms by (rule Header_Pack_valid)
  then show ?thesis
    using Header_Unpack_wire [OF assms(2) assms(3), of h0 m cerr'] by simp
qed

lemma Header_roundtrip_small:
  assumes "valid_for_packing h" and "buffer \<noteq> NULL" and "13 + length (pUuid h) < 2 ^ 31"
  shows "fst (Header_Pack h buffer m cerr) = of_nat (13 + length (pUuid h)) \<and>
         Header_Unpack h0 buffer (fst (snd (Header_Pack h buffer m cerr))) cerr' =
           (of_nat (13 + length (pUuid h)), h, cerr')"
proof -
  have l: "length (pUuid h) < 2 ^ 64"
    using assms(3) by simp
  show ?thesis
    using Header_roundtrip [OF assms(1) assms(2) l, of h0 m cerr cerr']
      Header_Pack_result [OF assms(1) assms(2), of m cerr]
      HeaderLength_small [OF assms(3)]
    by simp
qed

subsection \<open>The header of the wire layout scenario\<close>

lemma abc_wire: "Header_wire abc_header = [1, 0, 3, 0, 0, 0, 0, 0, 0, 0, 97, 98, 99, 1, 0, 0]"
  by code_simp

lemma abc_len: "HeaderLength abc_header = 16"
  by code_simp

lemma abc_valid: "valid_for_packing abc_header"
  by (simp add: valid_for_packing_def abc_header_def AdvType_def Uninitialized_def)

lemma abc_pack:
  assumes "buffer \<noteq> NULL"
  shows "Header_Pack abc_header buffer m cerr =
           (16, write_bytes m buffer [1, 0, 3, 0, 0, 0, 0, 0, 0, 0, 97, 98, 99, 1, 0, 0], cerr)"
proof -
  have "Header_Pack abc_header buffer m cerr =
          (scast (HeaderLength abc_header), write_bytes m buffer (Header_wire abc_header), cerr)"
    using abc_valid assms by (rule Header_Pack_valid) (simp add: abc_header_def)
  then show ?thesis
    unfolding abc_len abc_wire by simp
qed

lemma topic_codec_rejects_null: "Publisher_rejects_null topic_codec"
  by (simp add: Publisher_rejects_null_def topic_codec_def)

subsection \<open>Claims about the header codec\<close>

text \<open>
  Claim C1: for every header valid for packing, Unpack applied to the buffer that Pack
  filled reconstructs the header, and both return the header length
  \<open>2 + 8 + len(process_uuid) + 1 + 2\<close>.

  The header is reconstructed (lemma \<open>Header_roundtrip\<close>), and the length is returned
  while it is below \<open>2^31\<close> (lemma \<open>Header_roundtrip_small\<close>). \<open>HeaderLength\<close> returns an
  \<open>int\<close>, though: for a process UUID of \<open>2^31 - 13\<close> characters the header length is
  \<open>2^31\<close>, and Pack and Unpack both return \<open>2^64 - 2^31\<close>.
\<close>

theorem C1_header_length_truncated_to_int:
  "valid_for_packing \<lparr>version = 1, pUuid = replicate 2147483635 (CHR ''a''), type = AdvType, flags = 0\<rparr> \<and>
   2 + 8 + length (pUuid \<lparr>version = 1, pUuid = replicate 2147483635 (CHR ''a''), type = AdvType,
                          flags = 0\<rparr>) + 1 + 2 = (2147483648 :: nat) \<and>
   fst (Header_Pack \<lparr>version = 1, pUuid = replicate 2147483635 (CHR ''a''), type = AdvType, flags = 0\<rparr>
          1 m cerr) = 18446744071562067968 \<and>
   Header_Unpack h0 1
     (fst (snd (Header_Pack \<lparr>version = 1, pUuid = replicate 2147483635 (CHR ''a''), type = AdvType,
                              flags = 0\<rparr> 1 m cerr))) cerr' =
     (18446744071562067968,
      \<lparr>version = 1, pUuid = replicate 2147483635 (CHR ''a''), type = AdvType, flags = 0\<rparr>, cerr')"
proof -
  let ?h = "\<lparr>version = 1, pUuid = replicate 2147483635 (CHR ''a''), type = AdvType, flags = 0\<rparr>"
  have v: "valid_for_packing ?h"
    by (simp add: valid_for_packing_def AdvType_def Uninitialized_def)
  have n: "(1 :: addr) \<noteq> NULL"
    by (simp add: NULL_def)
  have l: "length (pUuid ?h) < 2 ^ 64"
    by simp
  have len: "(scast (HeaderLength ?h) :: size_t) = 18446744071562067968"
    by (simp add: HeaderLength_def string_size_def)
  show ?thesis
    using v Header_Pack_result [OF v n, of m cerr] Header_roundtrip [OF v n l, of h0 m cerr cerr'] len
    by simp
qed

text \<open>
  Claim C4: for the header with version 1, process UUID "abc", type Advertise and flags
  0, HeaderLength returns 15 and Pack into a 15-byte buffer returns 15.

  The header takes \<open>2 + 8 + 3 + 1 + 2 = 16\<close> bytes, not 15.
\<close>

theorem C4_counterexample:
  "\<not> (HeaderLength \<lparr>version = 1, pUuid = ''abc'', type = AdvType, flags = 0\<rparr> = 15 \<and>
      fst (Header_Pack \<lparr>version = 1, pUuid = ''abc'', type = AdvType, flags = 0\<rparr> 1 (\<lambda>_. 0) []) = 15)"
  by (simp add: HeaderLength_def string_size_def)

text \<open>
  Claim C4, amended: for that header HeaderLength returns 16, and Pack into any non-null
  buffer returns 16 and writes the 16 bytes of the wire layout from the buffer's start.
\<close>

theorem C4_abc_header_length:
  assumes "buffer \<noteq> NULL"
  shows "HeaderLength \<lparr>version = 1, pUuid = ''abc'', type = AdvType, flags = 0\<rparr> = 16 \<and>
         Header_Pack \<lparr>version = 1, pUuid = ''abc'', type = AdvType, flags = 0\<rparr> buffer m cerr =
           (16, write_bytes m buffer [1, 0, 3, 0, 0, 0, 0, 0, 0, 0, 97, 98, 99, 1, 0, 0], cerr)"
  using abc_pack [OF assms, of m cerr] abc_len by (simp add: abc_header_def)

theorem C4_abc_header_length_witness:
  "(1 :: addr) \<noteq> NULL \<and>
   HeaderLength \<lparr>version = 1, pUuid = ''abc'', type = AdvType, flags = 0\<rparr> = 16 \<and>
   fst (Header_Pack \<lparr>version = 1, pUuid = ''abc'', type = AdvType, flags = 0\<rparr> 1 (\<lambda>_. 0) []) = 16"
  using C4_abc_header_length [of 1 "\<lambda>_. 0" "[]"] by (simp add: NULL_def)

text \<open>
  Claim C5: for every header and buffer, Pack returns 0 and writes a diagnostic to the
  error stream whenever the version is 0, the process UUID is empty or the type is
  Uninitialized, and the buffer is not written.
\<close>

theorem C5_pack_rejects_incomplete_header:
  assumes "version h = 0 \<or> pUuid h = [] \<or> type h = Uninitialized"
  shows "Header_Pack h buffer m cerr =
           (0, m, cerr @ [Text ''Header::Pack() error: You're trying to pack an incomplete header:'',
                          Endl, Streamed h])"
  using assms by (simp add: Header_Pack_def)

theorem C5_pack_rejects_incomplete_header_witness:
  "version \<lparr>version = 0, pUuid = ''abc'', type = AdvType, flags = 0\<rparr> = 0 \<and>
   Header_Pack \<lparr>version = 0, pUuid = ''abc'', type = AdvType, flags = 0\<rparr> 1 (\<lambda>_. 7) [] =
     (0, \<lambda>_. 7,
      [Text ''Header::Pack() error: You're trying to pack an incomplete header:'', Endl,
       Streamed \<lparr>version = 0, pUuid = ''abc'', type = AdvType, flags = 0\<rparr>])"
  using C5_pack_rejects_incomplete_header
    [of "\<lparr>version = 0, pUuid = ''abc'', type = AdvType, flags = 0\<rparr>" 1 "\<lambda>_. 7" "[]"]
  by simp

text \<open>
  Claim C6: every Pack and every Unpack of the three codecs returns 0 on a null buffer;
  in particular \<open>AdvertiseMessage::Unpack\<close> does. The advertise codec hands the null
  buffer to the publisher's Unpack, so that part holds for a publisher codec that
  rejects the null buffer, as the spec requires of every codec.
\<close>

theorem C6_null_buffer_returns_0:
  assumes "Publisher_rejects_null c"
  shows "fst (Header_Pack h NULL m cerr) = 0 \<and>
         fst (Header_Unpack h NULL m cerr) = 0 \<and>
         fst (SubscriptionMsg_Pack s NULL m cerr) = 0 \<and>
         fst (SubscriptionMsg_Unpack s NULL m cerr) = 0 \<and>
         fst (AdvertiseMessage_Pack c a NULL m cerr) = 0 \<and>
         fst (AdvertiseMessage_Unpack c a NULL m cerr) = 0"
proof -
  have hp: "fst (Header_Pack h' NULL m cerr) = 0" for h'
    by (rule Header_Pack_NULL)
  have "fst (Header_Unpack h NULL m cerr) = 0"
    by (simp add: Header_Unpack_def)
  moreover have "fst (SubscriptionMsg_Pack s NULL m cerr) = 0"
    using hp [of "sub_header s"]
    by (auto simp: SubscriptionMsg_Pack_def split: prod.splits)
  moreover have "fst (SubscriptionMsg_Unpack s NULL m cerr) = 0"
    by (simp add: SubscriptionMsg_Unpack_def)
  moreover have "fst (AdvertiseMessage_Pack c a NULL m cerr) = 0"
    using hp [of "adv_header a"]
    by (auto simp: AdvertiseMessage_Pack_def split: prod.splits)
  moreover have "fst (AdvertiseMessage_Unpack c a NULL m cerr) = 0"
  proof -
    have "fst (Publisher_Unpack c (adv_publisher a) NULL m cerr) = 0"
      using assms by (simp add: Publisher_rejects_null_def)
    then show ?thesis
      by (auto simp: AdvertiseMessage_Unpack_def Let_def split: prod.splits)
  qed
  ultimately show ?thesis
    using hp [of h] by simp
qed

theorem C6_null_buffer_returns_0_witness:
  "Publisher_rejects_null topic_codec \<and>
   fst (Header_Pack abc_header NULL (\<lambda>_. 0) []) = 0 \<and>
   fst (Header_Unpack abc_header NULL (\<lambda>_. 0) []) = 0 \<and>
   fst (SubscriptionMsg_Pack \<lparr>sub_header = abc_header, sub_topic = ''t''\<rparr> NULL (\<lambda>_. 0) []) = 0 \<and>
   fst (SubscriptionMsg_Unpack \<lparr>sub_header = abc_header, sub_topic = ''t''\<rparr> NULL (\<lambda>_. 0) []) = 0 \<and>
   fst (AdvertiseMessage_Pack topic_codec \<lparr>adv_header = abc_header, adv_publisher = ''@/p@t''\<rparr>
          NULL (\<lambda>_. 0) []) = 0 \<and>
   fst (AdvertiseMessage_Unpack topic_codec \<lparr>adv_header = abc_header, adv_publisher = ''@/p@t''\<rparr>
          NULL (\<lambda>_. 0) []) = 0"
  using topic_codec_rejects_null
    C6_null_buffer_returns_0 [OF topic_codec_rejects_null,
      of abc_header "\<lambda>_. 0" "[]" "\<lparr>sub_header = abc_header, sub_topic = ''t''\<rparr>"
         "\<lparr>adv_header = abc_header, adv_publisher = ''@/p@t''\<rparr>"]
  by simp

text \<open>
  Claim C7: for every header valid for packing, Pack fails by returning 0 when the
  destination buffer is smaller than the header length, and then does not write past
  the buffer's end.

  Pack receives an address and no capacity. With the 16-byte header of the wire layout
  scenario and a 15-byte buffer at address 1, it returns 16 and overwrites the byte at
  address 16, the first one past the buffer.
\<close>

theorem C7_counterexample:
  "valid_for_packing abc_header \<and>
   (15 :: nat) < 13 + length (pUuid abc_header) \<and>
   fst (Header_Pack abc_header 1 (\<lambda>_. 255) []) \<noteq> 0 \<and>
   fst (snd (Header_Pack abc_header 1 (\<lambda>_. 255) [])) (1 + 15) \<noteq> (\<lambda>_. 255) (1 + 15 :: addr)"
proof -
  have "Header_Pack abc_header 1 (\<lambda>_. 255) [] =
          (16, write_bytes (\<lambda>_. 255) 1 [1, 0, 3, 0, 0, 0, 0, 0, 0, 0, 97, 98, 99, 1, 0, 0], [])"
    by (rule abc_pack) (simp add: NULL_def)
  then show ?thesis
    using abc_valid by (simp add: write_bytes_apply abc_header_def)
qed

text \<open>
  Claim C7, amended: Pack makes no capacity check. For every header valid for packing
  and every non-null buffer it returns the header length (as HeaderLength computes it;
  \<open>13 + len(process_uuid)\<close>, not 0, when that is below \<open>2^31\<close>) and writes exactly the
  \<open>13 + len(process_uuid)\<close> bytes of the wire layout from the buffer's start, whatever
  the buffer's size; memory outside that range is unchanged. Providing that many bytes
  is left to the caller.
\<close>

theorem C7_pack_has_no_capacity_check:
  assumes "valid_for_packing h" and "buffer \<noteq> NULL" and "length (pUuid h) < 2 ^ 64"
  shows "fst (Header_Pack h buffer m cerr) = scast (HeaderLength h) \<and>
         memcpy_from (fst (snd (Header_Pack h buffer m cerr))) buffer (13 + length (pUuid h)) =
           Header_wire h \<and>
         (\<forall>a. a < buffer \<or> buffer + (13 + length (pUuid h)) \<le> a \<longrightarrow>
              fst (snd (Header_Pack h buffer m cerr)) a = m a) \<and>
         (13 + length (pUuid h) < 2 ^ 31 \<longrightarrow>
            fst (Header_Pack h buffer m cerr) = of_nat (13 + length (pUuid h)) \<and>
            fst (Header_Pack h buffer m cerr) \<noteq> 0)"
proof -
  let ?n = "13 + length (pUuid h)"
  have pack: "Header_Pack h buffer m cerr =
                (scast (HeaderLength h), write_bytes m buffer (Header_wire h), cerr)"
    using assms by (rule Header_Pack_valid)
  have len: "length (Header_wire h) = ?n"
    by simp
  have read: "memcpy_from (write_bytes m buffer (Header_wire h)) buffer ?n = Header_wire h"
    using read_written_all [of m buffer "Header_wire h"] by (simp only: len)
  have frame: "write_bytes m buffer (Header_wire h) a = m a" if "a < buffer \<or> buffer + ?n \<le> a" for a
    using that write_bytes_outside [of a buffer "Header_wire h" m] by (simp only: len)
  have small: "(scast (HeaderLength h) :: size_t) = of_nat ?n \<and> (scast (HeaderLength h) :: size_t) \<noteq> 0"
    if lt: "?n < 2 ^ 31"
  proof -
    have eq: "(scast (HeaderLength h) :: size_t) = of_nat ?n"
      using lt by (rule HeaderLength_small)
    have "unat (of_nat ?n :: size_t) = ?n mod 2 ^ 64"
      using unat_of_nat [where 'a = 64, of ?n] by simp
    then have "unat (of_nat ?n :: size_t) = ?n"
      using lt by simp
    then have "(of_nat ?n :: size_t) \<noteq> 0"
      by (metis add_is_0 unat_0 zero_neq_numeral)
    then show ?thesis
      using eq by simp
  qed
  show ?thesis
    unfolding pack fst_conv snd_conv using read frame small by blast
qed

theorem C7_pack_has_no_capacity_check_witness:
  "valid_for_packing abc_header \<and> (1 :: addr) \<noteq> NULL \<and>
   fst (Header_Pack abc_header 1 (\<lambda>_. 255) []) = 16 \<and>
   memcpy_from (fst (snd (Header_Pack abc_header 1 (\<lambda>_. 255) []))) 1 16 =
     [1, 0, 3, 0, 0, 0, 0, 0, 0, 0, 97, 98, 99, 1, 0, 0] \<and>
   fst (snd (Header_Pack abc_header 1 (\<lambda>_. 255) [])) 17 = 255"
proof -
  have n: "(1 :: addr) \<noteq> NULL"
    by (simp add: NULL_def)
  have l: "length (pUuid abc_header) < 2 ^ 64"
    by (simp add: abc_header_def)
  have l3: "length (pUuid abc_header) = 3"
    by (simp add: abc_header_def)
  show ?thesis
    using abc_valid n C7_pack_has_no_capacity_check [OF abc_valid n l, of "\<lambda>_. 255" "[]"]
      abc_wire abc_len
    by (simp add: l3)
qed

text \<open>
  Claim C10: for every non-null buffer Unpack succeeds: it returns the nonzero length 13
  plus the decoded UUID length and overwrites the four fields with what the buffer
  holds, validating nothing.

  Nothing is validated (lemma \<open>Header_Unpack_no_validation\<close>), but the value returned is
  HeaderLength's \<open>int\<close>: a buffer whose UUID length field holds \<open>2^32 - 13\<close> makes Unpack
  return 0, the value that stands for failure.
\<close>

theorem C10_unpack_returns_0_on_large_uuid_length:
  "(1 :: addr) \<noteq> NULL \<and>
   (le_word (memcpy_from (write_bytes (\<lambda>_. 0) 3 (le_bytes 8 (4294967283 :: 64 word))) (1 + 2) 8)
      :: 64 word) = 4294967283 \<and>
   fst (Header_Unpack h 1 (write_bytes (\<lambda>_. 0) 3 (le_bytes 8 (4294967283 :: 64 word))) cerr) = 0"
proof -
  let ?m = "write_bytes (\<lambda>_. 0) 3 (le_bytes 8 (4294967283 :: 64 word))"
  have n: "(1 :: addr) \<noteq> NULL"
    by (simp add: NULL_def)
  have "memcpy_from ?m (1 + 2) 8 = le_bytes 8 (4294967283 :: 64 word)"
    by (rule read_written_at [where k = 0]) simp_all
  then have L: "(le_word (memcpy_from ?m (1 + 2) 8) :: 64 word) = 4294967283"
    by (simp only: le_word_u64)
  have "fst (Header_Unpack h 1 ?m cerr) = scast (ucast (13 + (4294967283 :: 64 word)) :: c_int)"
    using Header_Unpack_result [OF n, of h ?m cerr] by (simp only: L)
  then show ?thesis
    using n L by simp
qed

section \<open>Properties of the recorder\<close>

subsection \<open>Start\<close>

lemma Start_ok:
  "logFile st = None \<Longrightarrow> Log_Open c file \<Longrightarrow>
   Start c file st = (NO_ERROR, st\<lparr>logFile := Some (OpenLog file), openCalls := openCalls st @ [file]\<rparr>)"
  by (simp add: Start_def Let_def)

text \<open>
  Claim C2: for every recorder state and path, if the log is set (a Start succeeded and
  no Stop followed) then Start returns \<open>ALREADY_RECORDING\<close>, opens nothing and leaves
  the state as it is; and if the log is not set and opening the file fails, Start
  returns \<open>FAILED_TO_OPEN\<close> with the log still not set.
\<close>

theorem C2_Start_while_recording:
  "(logFile st \<noteq> None \<longrightarrow> Start c file st = (ALREADY_RECORDING, st)) \<and>
   (logFile st = None \<and> \<not> Log_Open c file \<longrightarrow>
      fst (Start c file st) = FAILED_TO_OPEN \<and> logFile (snd (Start c file st)) = None)"
  by (simp add: Start_def Let_def)

theorem C2_Start_while_recording_witness:
  "fst (Start (test_node ''robot'' (\<lambda>_. True)) ''a.log'' new_recorder) = NO_ERROR \<and>
   logFile (snd (Start (test_node ''robot'' (\<lambda>_. True)) ''a.log'' new_recorder)) \<noteq> None \<and>
   fst (Start (test_node ''robot'' (\<lambda>_. True)) ''b.log''
          (snd (Start (test_node ''robot'' (\<lambda>_. True)) ''a.log'' new_recorder))) = ALREADY_RECORDING \<and>
   openCalls (snd (Start (test_node ''robot'' (\<lambda>_. True)) ''b.log''
          (snd (Start (test_node ''robot'' (\<lambda>_. True)) ''a.log'' new_recorder)))) = [''a.log''] \<and>
   logFile (snd (Start (test_node ''robot'' (\<lambda>_. True)) ''b.log''
          (snd (Start (test_node ''robot'' (\<lambda>_. True)) ''a.log'' new_recorder)))) = Some (OpenLog ''a.log'') \<and>
   logFile new_recorder = None \<and> \<not> Log_Open (test_node ''robot'' (\<lambda>_. True)) [] \<and>
   fst (Start (test_node ''robot'' (\<lambda>_. True)) [] new_recorder) = FAILED_TO_OPEN \<and>
   logFile (snd (Start (test_node ''robot'' (\<lambda>_. True)) [] new_recorder)) = None"
proof -
  let ?c = "test_node ''robot'' (\<lambda>_. True)"
  have ok: "Start ?c ''a.log'' new_recorder =
      (NO_ERROR, new_recorder\<lparr>logFile := Some (OpenLog ''a.log''), openCalls := openCalls new_recorder @ [''a.log'']\<rparr>)"
    by (rule Start_ok) (simp_all add: new_recorder_def test_node_def)
  show ?thesis
    using C2_Start_while_recording [of "snd (Start ?c ''a.log'' new_recorder)" ?c "''b.log''"]
      C2_Start_while_recording [of new_recorder ?c "[]"]
    unfolding ok
    by (simp add: new_recorder_def test_node_def)
qed

subsection \<open>The partition filter of OnAdvertisement\<close>

lemma strcmp_0_iff: "strcmp a b = 0 \<longleftrightarrow> a = b"
  by (induction a b rule: strcmp.induct) auto

lemma c_string_at_0: "c_string_at s 0 = Some (takeWhile (\<lambda>ch. ch \<noteq> NUL) s)"
  by (simp add: c_string_at_def)

lemma c_string_at_nonempty:
  "s \<noteq> [] \<Longrightarrow> k \<le> 1 \<Longrightarrow> c_string_at s k = Some (takeWhile (\<lambda>ch. ch \<noteq> NUL) (drop k s))"
  by (cases s) (simp_all add: c_string_at_def)

lemma string_at_0_slash:
  "(string_at s 0 = CHR ''/'') = (s \<noteq> [] \<and> hd s = CHR ''/'')"
  by (cases s) (simp_all add: string_at_def NUL_def)

lemma takeWhile_no_NUL: "NUL \<notin> set s \<Longrightarrow> takeWhile (\<lambda>ch. ch \<noteq> NUL) s = s"
  by (induction s) auto

lemma OnAdvertisement_eq:
  assumes "DecomposeFullyQualifiedTopic c publisherTopic = (adv_partition, topic)"
    and "adv_partition \<noteq> []"
  shows "OnAdvertisement c publisherTopic st =
          (if takeWhile (\<lambda>ch. ch \<noteq> NUL) (Node_Partition c (node st)) \<noteq>
              takeWhile (\<lambda>ch. ch \<noteq> NUL)
                (drop (if Node_Partition c (node st) \<noteq> [] \<and> hd (Node_Partition c (node st)) = CHR ''/''
                       then 0 else 1) adv_partition)
           then Some st
           else if topic \<in> alreadySubscribed st then Some st
           else Some (OnAdvertisement_loop c topic (patterns st) st))"
  using assms
  by (simp add: OnAdvertisement_def Let_def c_string_at_0 c_string_at_nonempty
      string_at_0_slash strcmp_0_iff del: One_nat_def)

lemma split_robot: "split_topic ''@/robot@cmd'' = (''/robot'', ''cmd'')"
  by (simp add: split_topic_def)

lemma split_other: "split_topic ''@/other@cmd'' = (''/other'', ''cmd'')"
  by (simp add: split_topic_def)

text \<open>
  Claim C9: for every advertisement whose topic decomposes into an advertised partition
  (not empty: it begins with a slash) and a topic, the handler compares the node's
  partition with the advertised one from offset 0 if the node's partition begins with a
  slash, from offset 1 otherwise; when they differ the advertisement is dropped: no
  subscription, no change of state. The comparison is \<open>strcmp\<close>'s, on the characters
  before the first NUL; for strings without NUL it is equality with the advertised
  partition from that offset. So node partition "robot" matches "/robot" and not
  "/other".
\<close>

theorem C9_partition_filter:
  assumes "DecomposeFullyQualifiedTopic c publisherTopic = (adv_partition, topic)"
    and "adv_partition \<noteq> []"
  shows "(takeWhile (\<lambda>ch. ch \<noteq> NUL) (Node_Partition c (node st)) \<noteq>
            takeWhile (\<lambda>ch. ch \<noteq> NUL)
              (drop (if Node_Partition c (node st) \<noteq> [] \<and> hd (Node_Partition c (node st)) = CHR ''/''
                     then 0 else 1) adv_partition) \<longrightarrow>
            OnAdvertisement c publisherTopic st = Some st) \<and>
         (takeWhile (\<lambda>ch. ch \<noteq> NUL) (Node_Partition c (node st)) =
            takeWhile (\<lambda>ch. ch \<noteq> NUL)
              (drop (if Node_Partition c (node st) \<noteq> [] \<and> hd (Node_Partition c (node st)) = CHR ''/''
                     then 0 else 1) adv_partition) \<longrightarrow>
            OnAdvertisement c publisherTopic st =
              Some (if topic \<in> alreadySubscribed st then st
                    else OnAdvertisement_loop c topic (patterns st) st)) \<and>
         (NUL \<notin> set (Node_Partition c (node st)) \<and> NUL \<notin> set adv_partition \<longrightarrow>
            (takeWhile (\<lambda>ch. ch \<noteq> NUL) (Node_Partition c (node st)) =
               takeWhile (\<lambda>ch. ch \<noteq> NUL)
                 (drop (if Node_Partition c (node st) \<noteq> [] \<and> hd (Node_Partition c (node st)) = CHR ''/''
                        then 0 else 1) adv_partition)) =
            (Node_Partition c (node st) =
               drop (if Node_Partition c (node st) \<noteq> [] \<and> hd (Node_Partition c (node st)) = CHR ''/''
                     then 0 else 1) adv_partition))"
proof -
  define k :: nat where
    "k = (if Node_Partition c (node st) \<noteq> [] \<and> hd (Node_Partition c (node st)) = CHR ''/''
          then 0 else 1)"
  define ours where "ours = takeWhile (\<lambda>ch. ch \<noteq> NUL) (Node_Partition c (node st))"
  define theirs where "theirs = takeWhile (\<lambda>ch. ch \<noteq> NUL) (drop k adv_partition)"
  have eq: "OnAdvertisement c publisherTopic st =
              (if ours \<noteq> theirs then Some st
               else if topic \<in> alreadySubscribed st then Some st
               else Some (OnAdvertisement_loop c topic (patterns st) st))"
    unfolding ours_def theirs_def k_def by (rule OnAdvertisement_eq [OF assms])
  have drop: "ours \<noteq> theirs \<longrightarrow> OnAdvertisement c publisherTopic st = Some st"
    by (simp add: eq)
  have pass: "ours = theirs \<longrightarrow>
                OnAdvertisement c publisherTopic st =
                  Some (if topic \<in> alreadySubscribed st then st
                        else OnAdvertisement_loop c topic (patterns st) st)"
    by (simp add: eq)
  have plain: "NUL \<notin> set (Node_Partition c (node st)) \<and> NUL \<notin> set adv_partition \<longrightarrow>
                 (ours = theirs) = (Node_Partition c (node st) = drop k adv_partition)"
  proof
    assume a: "NUL \<notin> set (Node_Partition c (node st)) \<and> NUL \<notin> set adv_partition"
    then have "NUL \<notin> set (drop k adv_partition)"
      by (meson in_set_dropD)
    then have "theirs = drop k adv_partition"
      unfolding theirs_def by (rule takeWhile_no_NUL)
    moreover have "ours = Node_Partition c (node st)"
      unfolding ours_def using a by (intro takeWhile_no_NUL) simp
    ultimately show "(ours = theirs) = (Node_Partition c (node st) = drop k adv_partition)"
      by simp
  qed
  from drop pass plain show ?thesis
    unfolding ours_def theirs_def k_def by blast
qed

theorem C9_partition_filter_witness:
  "DecomposeFullyQualifiedTopic (test_node ''robot'' (\<lambda>_. True)) ''@/robot@cmd'' = (''/robot'', ''cmd'') \<and>
   OnAdvertisement (test_node ''robot'' (\<lambda>_. True)) ''@/robot@cmd'' (new_recorder\<lparr>patterns := [\<lambda>_. True]\<rparr>) =
     Some (OnAdvertisement_loop (test_node ''robot'' (\<lambda>_. True)) ''cmd'' [\<lambda>_. True]
             (new_recorder\<lparr>patterns := [\<lambda>_. True]\<rparr>)) \<and>
   subscribeRawCalls (OnAdvertisement_loop (test_node ''robot'' (\<lambda>_. True)) ''cmd'' [\<lambda>_. True]
             (new_recorder\<lparr>patterns := [\<lambda>_. True]\<rparr>)) = [(''cmd'', True)] \<and>
   DecomposeFullyQualifiedTopic (test_node ''robot'' (\<lambda>_. True)) ''@/other@cmd'' = (''/other'', ''cmd'') \<and>
   OnAdvertisement (test_node ''robot'' (\<lambda>_. True)) ''@/other@cmd'' (new_recorder\<lparr>patterns := [\<lambda>_. True]\<rparr>) =
     Some (new_recorder\<lparr>patterns := [\<lambda>_. True]\<rparr>)"
proof -
  let ?c = "test_node ''robot'' (\<lambda>_. True)"
  let ?st = "new_recorder\<lparr>patterns := [\<lambda>_. True]\<rparr>"
  have d1: "DecomposeFullyQualifiedTopic ?c ''@/robot@cmd'' = (''/robot'', ''cmd'')"
    by (simp add: test_node_def split_robot)
  have d2: "DecomposeFullyQualifiedTopic ?c ''@/other@cmd'' = (''/other'', ''cmd'')"
    by (simp add: test_node_def split_other)
  have p: "Node_Partition ?c (node ?st) = ''robot''"
    by (simp add: test_node_def)
  have calls: "subscribeRawCalls (OnAdvertisement_loop ?c ''cmd'' [\<lambda>_. True] ?st) = [(''cmd'', True)]"
    by (simp add: AddTopic_def regex_match_def test_node_def new_recorder_def)
  have "OnAdvertisement ?c ''@/robot@cmd'' ?st = Some (OnAdvertisement_loop ?c ''cmd'' [\<lambda>_. True] ?st)"
    using C9_partition_filter [OF d1, of ?st] unfolding p
    by (simp add: NUL_def new_recorder_def)
  moreover have "OnAdvertisement ?c ''@/other@cmd'' ?st = Some ?st"
    using C9_partition_filter [OF d2, of ?st] unfolding p
    by (simp add: NUL_def)
  ultimately show ?thesis
    using d1 d2 calls by simp
qed

subsection \<open>AddTopic with a pattern\<close>

lemma AddTopic_eq:
  "AddTopic c topic st =
     (if fst (Node_SubscribeRaw c (node st) topic)
      then (NO_ERROR,
            st\<lparr>node := snd (Node_SubscribeRaw c (node st) topic),
               subscribeRawCalls := subscribeRawCalls st @ [(topic, True)],
               alreadySubscribed := insert topic (alreadySubscribed st)\<rparr>)
      else (FAILED_TO_SUBSCRIBE,
            st\<lparr>node := snd (Node_SubscribeRaw c (node st) topic),
               subscribeRawCalls := subscribeRawCalls st @ [(topic, False)]\<rparr>))"
  by (simp add: AddTopic_def Let_def split: prod.splits)

lemma AddTopic_loop_calls:
  assumes "AddTopic_loop c pattern topics n st = (res, st')"
  shows "\<exists>new. subscribeRawCalls st' = subscribeRawCalls st @ new \<and>
           patterns st' = patterns st \<and>
           alreadySubscribed st' = alreadySubscribed st \<union> {t. (t, True) \<in> set new} \<and>
           map fst new = take (length new) (filter (\<lambda>t. regex_match t pattern) topics) \<and>
           (case res of
              Inr n' \<Rightarrow>
                map fst new = filter (\<lambda>t. regex_match t pattern) topics \<and>
                (\<forall>x \<in> set new. snd x) \<and> n' = n + of_nat (length new)
            | Inl r \<Rightarrow>
                r = RecorderError_value c FAILED_TO_SUBSCRIBE \<and> new \<noteq> [] \<and>
                \<not> snd (last new) \<and> (\<forall>x \<in> set (butlast new). snd x))"
  using assms
proof (induction topics arbitrary: n st)
  case Nil
  then show ?case by auto
next
  case (Cons topic topics)
  show ?case
  proof (cases "regex_match topic pattern")
    case False
    then have "AddTopic_loop c pattern topics n st = (res, st')"
      using Cons.prems by simp
    moreover have "filter (\<lambda>t. regex_match t pattern) (topic # topics) =
                     filter (\<lambda>t. regex_match t pattern) topics"
      using False by simp
    ultimately show ?thesis
      using Cons.IH [of n st] by (simp only:)
  next
    case True
    show ?thesis
    proof (cases "fst (Node_SubscribeRaw c (node st) topic)")
      case False
      let ?st1 = "st\<lparr>node := snd (Node_SubscribeRaw c (node st) topic),
                      subscribeRawCalls := subscribeRawCalls st @ [(topic, False)]\<rparr>"
      have "res = Inl (RecorderError_value c FAILED_TO_SUBSCRIBE)" and "st' = ?st1"
        using Cons.prems True False by (simp_all add: AddTopic_eq)
      then show ?thesis
        using True by (intro exI [of _ "[(topic, False)]"]) simp
    next
      case ok: True
      let ?st1 = "st\<lparr>node := snd (Node_SubscribeRaw c (node st) topic),
                      subscribeRawCalls := subscribeRawCalls st @ [(topic, True)],
                      alreadySubscribed := insert topic (alreadySubscribed st)\<rparr>"
      have "AddTopic_loop c pattern topics (n + 1) ?st1 = (res, st')"
        using Cons.prems True ok by (simp add: AddTopic_eq)
      from Cons.IH [OF this] obtain new where new:
        "subscribeRawCalls st' = subscribeRawCalls ?st1 @ new"
        "patterns st' = patterns ?st1"
        "alreadySubscribed st' = alreadySubscribed ?st1 \<union> {t. (t, True) \<in> set new}"
        "map fst new = take (length new) (filter (\<lambda>t. regex_match t pattern) topics)"
        "case res of
           Inr n' \<Rightarrow>
             map fst new = filter (\<lambda>t. regex_match t pattern) topics \<and>
             (\<forall>x \<in> set new. snd x) \<and> n' = n + 1 + of_nat (length new)
         | Inl r \<Rightarrow>
             r = RecorderError_value c FAILED_TO_SUBSCRIBE \<and> new \<noteq> [] \<and>
             \<not> snd (last new) \<and> (\<forall>x \<in> set (butlast new). snd x)"
        by blast
      show ?thesis
      proof (intro exI [of _ "(topic, True) # new"] conjI)
        show "subscribeRawCalls st' = subscribeRawCalls st @ (topic, True) # new"
          using new(1) by simp
        show "patterns st' = patterns st"
          using new(2) by simp
        show "alreadySubscribed st' = alreadySubscribed st \<union> {t. (t, True) \<in> set ((topic, True) # new)}"
          using new(3) by auto
        show "map fst ((topic, True) # new) =
                take (length ((topic, True) # new)) (filter (\<lambda>t. regex_match t pattern) (topic # topics))"
          using new(4) True by simp
        show "case res of
                Inr n' \<Rightarrow>
                  map fst ((topic, True) # new) = filter (\<lambda>t. regex_match t pattern) (topic # topics) \<and>
                  (\<forall>x \<in> set ((topic, True) # new). snd x) \<and> n' = n + of_nat (length ((topic, True) # new))
              | Inl r \<Rightarrow>
                  r = RecorderError_value c FAILED_TO_SUBSCRIBE \<and> (topic, True) # new \<noteq> [] \<and>
                  \<not> snd (last ((topic, True) # new)) \<and> (\<forall>x \<in> set (butlast ((topic, True) # new)). snd x)"
          using new(5) True by (cases res) (auto simp: add.assoc)
      qed
    qed
  qed
qed


lemma int_count_small:
  assumes "k < 2 ^ 31"
  shows "(scast (of_nat k :: c_int) :: 64 word) = of_nat k"
proof -
  have "unat (of_nat k :: 64 word) = k mod 2 ^ 64"
    using unat_of_nat [where 'a = 64, of k] by simp
  then have u: "unat (of_nat k :: 64 word) = k"
    using assms by simp
  then have lt: "(of_nat k :: 64 word) < 2 ^ 31"
    using assms by (simp add: word_less_nat_alt)
  have "take_bit 64 k = k"
    using assms by (simp add: take_bit_nat_eq_self)
  then have "(ucast (of_nat k :: 64 word) :: c_int) = of_nat k"
    by (simp add: unsigned_of_nat)
  then show ?thesis
    using int_of_size_t_small [OF lt] by simp
qed

lemma regex_all_succeed:
  "AddTopic_regex (test_node ''robot'' (\<lambda>_. True)) (\<lambda>s. s \<noteq> ''odom'') new_recorder =
     (2, new_recorder\<lparr>patterns := [\<lambda>s. s \<noteq> ''odom''], alreadySubscribed := {''cmd'', ''scan''},
                      subscribeRawCalls := [(''cmd'', True), (''scan'', True)]\<rparr>)"
  by (simp add: AddTopic_regex_def test_node_def regex_match_def AddTopic_def new_recorder_def
      insert_commute)

lemma regex_one_fails:
  "AddTopic_regex (test_node ''robot'' (\<lambda>t. t \<noteq> ''odom'')) (\<lambda>_. True) new_recorder =
     (- 2, new_recorder\<lparr>alreadySubscribed := {''cmd''},
                        subscribeRawCalls := [(''cmd'', True), (''odom'', False)]\<rparr>)"
  by (simp add: AddTopic_regex_def test_node_def regex_match_def AddTopic_def new_recorder_def)

lemma regex_no_match:
  "AddTopic_regex (test_node ''robot'' (\<lambda>_. True)) (\<lambda>_. False) new_recorder =
     (0, new_recorder\<lparr>patterns := [\<lambda>_. False]\<rparr>)"
  by (simp add: AddTopic_regex_def test_node_def regex_match_def AddTopic_def new_recorder_def)

lemma AddTopic_regex_calls:
  assumes "length (filter (\<lambda>t. regex_match t pattern) (Node_TopicList c (node st))) < 2 ^ 31"
  shows "\<exists>new.
           subscribeRawCalls (snd (AddTopic_regex c pattern st)) = subscribeRawCalls st @ new \<and>
           alreadySubscribed (snd (AddTopic_regex c pattern st)) =
             alreadySubscribed st \<union> {t. (t, True) \<in> set new} \<and>
           map fst new =
             take (length new) (filter (\<lambda>t. regex_match t pattern) (Node_TopicList c (node st))) \<and>
           ((\<forall>x \<in> set new. snd x) \<longrightarrow>
              map fst new = filter (\<lambda>t. regex_match t pattern) (Node_TopicList c (node st)) \<and>
              fst (AddTopic_regex c pattern st) =
                of_nat (length (filter (\<lambda>t. regex_match t pattern) (Node_TopicList c (node st)))) \<and>
              patterns (snd (AddTopic_regex c pattern st)) = patterns st @ [pattern]) \<and>
           (\<not> (\<forall>x \<in> set new. snd x) \<longrightarrow>
              fst (AddTopic_regex c pattern st) = RecorderError_value c FAILED_TO_SUBSCRIBE \<and>
              \<not> snd (last new) \<and> (\<forall>x \<in> set (butlast new). snd x) \<and>
              patterns (snd (AddTopic_regex c pattern st)) = patterns st)"
proof -
  let ?ms = "filter (\<lambda>t. regex_match t pattern) (Node_TopicList c (node st))"
  obtain res st1 where loop: "AddTopic_loop c pattern (Node_TopicList c (node st)) 0 st = (res, st1)"
    by (cases "AddTopic_loop c pattern (Node_TopicList c (node st)) 0 st") blast
  from AddTopic_loop_calls [OF loop] obtain new where new:
    "subscribeRawCalls st1 = subscribeRawCalls st @ new"
    "patterns st1 = patterns st"
    "alreadySubscribed st1 = alreadySubscribed st \<union> {t. (t, True) \<in> set new}"
    "map fst new = take (length new) ?ms"
    "case res of
       Inr n' \<Rightarrow> map fst new = ?ms \<and> (\<forall>x \<in> set new. snd x) \<and> n' = 0 + of_nat (length new)
     | Inl r \<Rightarrow> r = RecorderError_value c FAILED_TO_SUBSCRIBE \<and> new \<noteq> [] \<and>
         \<not> snd (last new) \<and> (\<forall>x \<in> set (butlast new). snd x)"
    by blast
  show ?thesis
  proof (cases res)
    case (Inl r)
    then have r: "AddTopic_regex c pattern st = (r, st1)"
      using loop by (simp add: AddTopic_regex_def)
    have f: "r = RecorderError_value c FAILED_TO_SUBSCRIBE" "new \<noteq> []" "\<not> snd (last new)"
      "\<forall>x \<in> set (butlast new). snd x"
      using new(5) Inl by simp_all
    have "\<not> (\<forall>x \<in> set new. snd x)"
      using f(2) f(3) last_in_set by blast
    then show ?thesis
      unfolding r using new(1,2,3,4) f by (intro exI [of _ new]) simp
  next
    case (Inr n')
    then have r: "AddTopic_regex c pattern st = (scast n', st1\<lparr>patterns := patterns st1 @ [pattern]\<rparr>)"
      using loop by (simp add: AddTopic_regex_def)
    have f: "map fst new = ?ms" "\<forall>x \<in> set new. snd x" "n' = of_nat (length new)"
      using new(5) Inr by simp_all
    have len: "length new = length ?ms"
      using f(1) by (metis length_map)
    have "(scast n' :: 64 word) = of_nat (length ?ms)"
      unfolding f(3) len using assms by (rule int_count_small)
    then show ?thesis
      unfolding r using new(1,2,3,4) f(1,2) by (intro exI [of _ new]) simp
  qed
qed

text \<open>With a node whose \<open>SubscribeRaw\<close> always succeeds the loop runs to its end, and
  \<open>numSubscriptions\<close> is the number of matching topics, counted in an \<open>int\<close>.\<close>

lemma AddTopic_loop_all_succeed:
  assumes "\<And>n t. fst (Node_SubscribeRaw c n t)"
  shows "fst (AddTopic_loop c pattern topics k st) =
           Inr (k + of_nat (length (filter (\<lambda>t. regex_match t pattern) topics)))"
proof (induction topics arbitrary: k st)
  case Nil
  then show ?case by simp
next
  case (Cons topic topics)
  show ?case
  proof (cases "regex_match topic pattern")
    case False
    then show ?thesis
      using Cons.IH [of k st] by simp
  next
    case True
    let ?st1 = "st\<lparr>node := snd (Node_SubscribeRaw c (node st) topic),
                    subscribeRawCalls := subscribeRawCalls st @ [(topic, True)],
                    alreadySubscribed := insert topic (alreadySubscribed st)\<rparr>"
    have "AddTopic c topic st = (NO_ERROR, ?st1)"
      using assms [of "node st" topic] by (simp add: AddTopic_eq)
    then have "AddTopic_loop c pattern (topic # topics) k st =
                 AddTopic_loop c pattern topics (k + 1) ?st1"
      using True by simp
    then show ?thesis
      using Cons.IH [of "k + 1" ?st1] True by (simp add: add.assoc)
  qed
qed

lemma AddTopic_regex_all_succeed:
  assumes "\<And>n t. fst (Node_SubscribeRaw c n t)"
  shows "fst (AddTopic_regex c pattern st) =
           scast (of_nat (length (filter (\<lambda>t. regex_match t pattern) (Node_TopicList c (node st))))
                    :: c_int)"
proof -
  obtain res st1 where loop: "AddTopic_loop c pattern (Node_TopicList c (node st)) 0 st = (res, st1)"
    by (cases "AddTopic_loop c pattern (Node_TopicList c (node st)) 0 st") blast
  have "res = Inr (0 + of_nat (length (filter (\<lambda>t. regex_match t pattern) (Node_TopicList c (node st)))))"
    using AddTopic_loop_all_succeed [OF assms, of pattern "Node_TopicList c (node st)" 0 st] loop
    by simp
  then show ?thesis
    using loop by (simp add: AddTopic_regex_def)
qed

text \<open>
  Claim C8: AddTopic with a pattern calls AddTopic for exactly the topics of the node's
  list that match the pattern, returns \<open>FAILED_TO_SUBSCRIBE\<close> at once if such a
  subscription fails, and otherwise returns the count of new subscriptions and appends
  the pattern to the pattern list, also when the count is 0.

  The calls, the early return and the pattern list are as the claim says (lemma
  \<open>AddTopic_regex_calls\<close>), and so is the count while it is below \<open>2^31\<close>. The function
  returns an \<open>int64_t\<close> but counts in an \<open>int\<close>: on a node with \<open>2^31\<close> topics, all
  matching and all subscribed successfully, the counter overflows and the value
  returned is \<open>-2^31\<close>, that is \<open>2^64 - 2^31\<close> as a 64-bit word.
\<close>

theorem C8_count_overflows_int:
  "length (filter (\<lambda>t. regex_match t (\<lambda>_. True)) (Node_TopicList crowded_node (node new_recorder))) =
     2147483648 \<and>
   fst (AddTopic_regex crowded_node (\<lambda>_. True) new_recorder) = 18446744071562067968 \<and>
   sint (fst (AddTopic_regex crowded_node (\<lambda>_. True) new_recorder)) = - 2147483648"
proof -
  have len: "length (filter (\<lambda>t. regex_match t (\<lambda>_. True)) (Node_TopicList crowded_node (node new_recorder))) =
               2147483648"
    by (simp add: crowded_node_def regex_match_def)
  have ok: "fst (Node_SubscribeRaw crowded_node n t)" for n t
    by (simp add: crowded_node_def test_node_def)
  have "fst (AddTopic_regex crowded_node (\<lambda>_. True) new_recorder) =
          scast (of_nat 2147483648 :: c_int)"
    using AddTopic_regex_all_succeed [of crowded_node "\<lambda>_. True" new_recorder, OF ok]
    by (simp only: len)
  then have r: "fst (AddTopic_regex crowded_node (\<lambda>_. True) new_recorder) = 18446744071562067968"
    by simp
  show ?thesis
    using len r by simp
qed

subsection \<open>Subscriptions of one run\<close>







end
